theory Spec2Isabelle
  imports Complex_Main "HOL-Library.Multiset" "HOL-Library.Sublist"
begin

section \<open>Data model\<close>

text \<open>
  The planner lives in \<^verbatim>\<open>lib/ai-service/enhanced-context-manager.ts\<close>, the chunk loop
  and the merger in \<^verbatim>\<open>lib/ai-service/enhanced-ai-service.ts\<close>. Records carry the
  fields those two files read; payload fields that are only copied along (line numbers,
  messages of findings, code snippets) are left out.

  JavaScript numbers that hold counts, priorities and token estimates are integers in
  every run and are modelled as \<open>int\<close>. Costs and confidences are IEEE doubles in the
  program and exact rationals here.
\<close>

datatype ChangeType = Added | Modified | Deleted

record DiffHunk =
  content :: string
  hunk_context :: "(string \<times> string) option"

record CodeChange =
  change_file :: string
  changeType :: ChangeType
  hunks :: "DiffHunk list"

datatype FindingType = Security | Performance | Style | Bug | Privacy

datatype Severity = Critical | High | Medium | Low

record AnalysisFinding =
  finding_id :: string
  finding_type :: FindingType
  severity :: Severity
  finding_file :: string

datatype ChunkStrategy = BY_MODULE | BY_SEVERITY | BY_FILE_TYPE | BY_SIZE | SMART

record ContextWindowConfig =
  model :: string
  contextWindowSize :: int
  reservedTokens :: int
  enableSmartChunking :: bool
  prioritizeSecurityIssues :: bool
  maxChunks :: int

record PrioritizedItem =
  change :: CodeChange
  priority :: int
  relatedFindings :: "AnalysisFinding list"
  mustInclude :: bool

record Chunk =
  chunk_id :: string
  chunk_priority :: int
  changes :: "CodeChange list"
  findings :: "AnalysisFinding list"
  tokenEstimate :: int
  description :: string

record ChunkOptions =
  strategy :: "ChunkStrategy option"
  systemPromptTokens :: "int option"
  forceIncludeFiles :: "string list option"

record AnalysisSummary =
  totalChanges :: int
  totalFindings :: int
  criticalFindings :: int
  estimatedTotalTokens :: int
  recommendedStrategy :: ChunkStrategy

record Analysis =
  chunks :: "Chunk list"
  summary :: AnalysisSummary

subsection \<open>The ContentPriority enum\<close>

definition CRITICAL_SECURITY :: int where "CRITICAL_SECURITY = 100"
definition HIGH_SECURITY :: int where "HIGH_SECURITY = 90"
definition CRITICAL_BUG :: int where "CRITICAL_BUG = 80"
definition HIGH_BUG :: int where "HIGH_BUG = 70"
definition PERFORMANCE :: int where "PERFORMANCE = 60"
definition MEDIUM_ISSUE :: int where "MEDIUM_ISSUE = 50"
definition LOW_ISSUE :: int where "LOW_ISSUE = 40"
definition STYLE :: int where "STYLE = 30"
definition CONTEXT :: int where "CONTEXT = 20"
definition METADATA :: int where "METADATA = 10"

lemmas ContentPriority_defs =
  CRITICAL_SECURITY_def HIGH_SECURITY_def CRITICAL_BUG_def HIGH_BUG_def PERFORMANCE_def
  MEDIUM_ISSUE_def LOW_ISSUE_def STYLE_def CONTEXT_def METADATA_def

section \<open>Strings\<close>

text \<open>
  \<^verbatim>\<open>/auth/i.test(file)\<close> is a case-insensitive substring test. The patterns are lower-case
  ASCII literals, so the file name is lower-cased and searched.
\<close>

definition toLowerCase_char :: "char \<Rightarrow> char" where
  "toLowerCase_char c =
     (case map_of (zip ''ABCDEFGHIJKLMNOPQRSTUVWXYZ'' ''abcdefghijklmnopqrstuvwxyz'') c of
        Some d \<Rightarrow> d
      | None \<Rightarrow> c)"

fun includes_str :: "string \<Rightarrow> string \<Rightarrow> bool" where
  "includes_str [] pat = (pat = [])"
| "includes_str (c # cs) pat = (take (length pat) (c # cs) = pat \<or> includes_str cs pat)"

definition test_i :: "string \<Rightarrow> string \<Rightarrow> bool" where
  "test_i pat s = includes_str (map toLowerCase_char s) pat"

text \<open>\<^verbatim>\<open>file.split('/')[0]\<close>: the text before the first slash.\<close>

definition firstSegment :: "string \<Rightarrow> string" where
  "firstSegment f = takeWhile (\<lambda>c. c \<noteq> CHR ''/'') f"

text \<open>\<^verbatim>\<open>file.split('.').pop()\<close>: the text after the last dot.\<close>

definition lastDotSegment :: "string \<Rightarrow> string" where
  "lastDotSegment f = rev (takeWhile (\<lambda>c. c \<noteq> CHR ''.'') (rev f))"

text \<open>Template literals print numbers in decimal.\<close>

definition digitChar :: "nat \<Rightarrow> char" where
  "digitChar d = ''0123456789'' ! d"

fun decimal :: "nat \<Rightarrow> string" where
  "decimal n =
     (if n div 10 = 0 then [digitChar n] else decimal (n div 10) @ [digitChar (n mod 10)])"

definition numberString :: "int \<Rightarrow> string" where
  "numberString i = (if 0 \<le> i then decimal (nat i) else CHR ''-'' # decimal (nat (- i)))"

definition strategy_string :: "ChunkStrategy \<Rightarrow> string" where
  "strategy_string s =
     (case s of BY_MODULE \<Rightarrow> ''by-module'' | BY_SEVERITY \<Rightarrow> ''by-severity''
      | BY_FILE_TYPE \<Rightarrow> ''by-file-type'' | BY_SIZE \<Rightarrow> ''by-size'' | SMART \<Rightarrow> ''smart'')"

section \<open>Token estimation\<close>

text \<open>
  \<^verbatim>\<open>estimateTokens(content)\<close> returns \<^verbatim>\<open>Math.ceil(content.length * multiplier * density)\<close>,
  a product of doubles rounded up: a non-negative integer that depends on the content
  string only. The rounding of that product is outside the model, so the estimator of a
  string is a parameter \<open>est\<close> of every function below, and every theorem holds for
  every estimator.
\<close>

definition estimateChangeTokens :: "(string \<Rightarrow> nat) \<Rightarrow> CodeChange \<Rightarrow> int" where
  "estimateChangeTokens est c =
     fold (\<lambda>hunk tokens.
             tokens + int (est (content hunk))
             + (case hunk_context hunk of
                  None \<Rightarrow> 0
                | Some (ctxBefore, ctxAfter) \<Rightarrow>
                    (if ctxBefore \<noteq> [] then int (est ctxBefore) else 0)
                    + (if ctxAfter \<noteq> [] then int (est ctxAfter) else 0)))
          (hunks c) 50"

definition estimateFindingTokens :: "AnalysisFinding list \<Rightarrow> int" where
  "estimateFindingTokens fs = int (length fs) * 60"

definition calculateTotalTokens ::
  "(string \<Rightarrow> nat) \<Rightarrow> CodeChange list \<Rightarrow> AnalysisFinding list \<Rightarrow> int" where
  "calculateTotalTokens est cs fs =
     fold (\<lambda>c sum. sum + estimateChangeTokens est c) cs 0 + estimateFindingTokens fs"

definition itemTokens :: "(string \<Rightarrow> nat) \<Rightarrow> PrioritizedItem \<Rightarrow> int" where
  "itemTokens est item =
     estimateChangeTokens est (change item) + estimateFindingTokens (relatedFindings item)"

section \<open>Priorities\<close>

definition getFindingPriority :: "AnalysisFinding \<Rightarrow> int" where
  "getFindingPriority f =
     (case severity f of
        Critical \<Rightarrow> (if finding_type f = Security then CRITICAL_SECURITY else CRITICAL_BUG)
      | High \<Rightarrow> (if finding_type f = Security then HIGH_SECURITY else HIGH_BUG)
      | Medium \<Rightarrow> MEDIUM_ISSUE
      | Low \<Rightarrow> LOW_ISSUE)"

definition sensitivePatterns :: "string list" where
  "sensitivePatterns =
     [''auth'', ''security'', ''token'', ''password'', ''secret'', ''key'', ''credential'',
      ''session'', ''jwt'', ''oauth'']"

definition isSecuritySensitiveFile :: "string \<Rightarrow> bool" where
  "isSecuritySensitiveFile f = list_ex (\<lambda>pat. test_i pat f) sensitivePatterns"

definition criticalPatterns :: "string list" where
  "criticalPatterns = [''config'', ''database'', ''api'', ''route'', ''middleware'', ''handler'']"

definition isCriticalFile :: "string \<Rightarrow> bool" where
  "isCriticalFile f = list_ex (\<lambda>pat. test_i pat f) criticalPatterns"

definition calculateChangePriority :: "CodeChange \<Rightarrow> AnalysisFinding list \<Rightarrow> int" where
  "calculateChangePriority c fs =
     (let p0 = fold (\<lambda>finding p. max p (getFindingPriority finding)) fs CONTEXT;
          p1 = (if changeType c = Added \<and> isSecuritySensitiveFile (change_file c)
                then max p0 HIGH_SECURITY else p0);
          p2 = (if isCriticalFile (change_file c) then max p1 HIGH_BUG else p1)
      in p2)"

text \<open>
  \<^verbatim>\<open>findingsByFile\<close> is a \<^verbatim>\<open>Map\<close> from file name to the findings of that file, filled
  in the order of the findings.
\<close>

definition getOrEmpty :: "('k \<rightharpoonup> 'v list) \<Rightarrow> 'k \<Rightarrow> 'v list" where
  "getOrEmpty m k = (case m k of None \<Rightarrow> [] | Some l \<Rightarrow> l)"

definition pushFinding ::
  "AnalysisFinding \<Rightarrow> (string \<rightharpoonup> AnalysisFinding list) \<Rightarrow> (string \<rightharpoonup> AnalysisFinding list)" where
  "pushFinding finding m =
     m(finding_file finding \<mapsto> getOrEmpty m (finding_file finding) @ [finding])"

definition findingsByFile :: "AnalysisFinding list \<Rightarrow> (string \<rightharpoonup> AnalysisFinding list)" where
  "findingsByFile fs = fold pushFinding fs Map.empty"

text \<open>
  \<^verbatim>\<open>Array.prototype.sort\<close> with the comparator \<^verbatim>\<open>(a, b) => key(b) - key(a)\<close>: the
  language fixes the result (descending by key, equal keys in their input order) and
  leaves the algorithm to the engine. \<open>jsSort\<close> is one such algorithm; the planner takes
  the engine's sort as a parameter, \<open>stableSortDesc\<close> is what the language asks of it.
\<close>

definition jsSort :: "('a \<Rightarrow> int) \<Rightarrow> 'a list \<Rightarrow> 'a list" where
  "jsSort key xs = sort_key (\<lambda>x. - key x) xs"

definition stableSortDesc :: "('a \<Rightarrow> int) \<Rightarrow> ('a list \<Rightarrow> 'a list) \<Rightarrow> bool" where
  "stableSortDesc key srt \<longleftrightarrow>
     (\<forall>xs. mset (srt xs) = mset xs
           \<and> sorted (map (\<lambda>x. - key x) (srt xs))
           \<and> (\<forall>k. filter (\<lambda>x. key x = k) (srt xs) = filter (\<lambda>x. key x = k) xs))"

text \<open>\<^verbatim>\<open>forceIncludeFiles?.includes(change.file) || false\<close>\<close>

definition isForced :: "string list option \<Rightarrow> string \<Rightarrow> bool" where
  "isForced force f = (case force of None \<Rightarrow> False | Some fl \<Rightarrow> f \<in> set fl)"

definition prioritizeItem ::
  "AnalysisFinding list \<Rightarrow> string list option \<Rightarrow> CodeChange \<Rightarrow> PrioritizedItem" where
  "prioritizeItem fs force c =
     (let related = getOrEmpty (findingsByFile fs) (change_file c);
          must = isForced force (change_file c);
          p = calculateChangePriority c related;
          p' = (if must then max p CRITICAL_SECURITY else p)
      in \<lparr>change = c, priority = p', relatedFindings = related, mustInclude = must\<rparr>)"

definition prioritizeContentWith ::
  "(PrioritizedItem list \<Rightarrow> PrioritizedItem list) \<Rightarrow> CodeChange list \<Rightarrow>
   AnalysisFinding list \<Rightarrow> string list option \<Rightarrow> PrioritizedItem list" where
  "prioritizeContentWith sortItems cs fs force = sortItems (map (prioritizeItem fs force) cs)"

section \<open>Chunking\<close>

definition emptyChunk :: "string \<Rightarrow> string \<Rightarrow> Chunk" where
  "emptyChunk cid desc =
     \<lparr>chunk_id = cid, chunk_priority = 0, changes = [], findings = [], tokenEstimate = 0,
      description = desc\<rparr>"

definition addItem :: "(string \<Rightarrow> nat) \<Rightarrow> PrioritizedItem \<Rightarrow> Chunk \<Rightarrow> Chunk" where
  "addItem est item chunk =
     chunk\<lparr>changes := changes chunk @ [change item],
           findings := findings chunk @ relatedFindings item,
           tokenEstimate := tokenEstimate chunk + itemTokens est item,
           chunk_priority := max (chunk_priority chunk) (priority item)\<rparr>"

definition createSingleChunk ::
  "(string \<Rightarrow> nat) \<Rightarrow> PrioritizedItem list \<Rightarrow> int \<Rightarrow> string \<Rightarrow> string \<Rightarrow> Chunk" where
  "createSingleChunk est items availableTokens cid desc =
     fold (\<lambda>item chunk.
             if tokenEstimate chunk + itemTokens est item \<le> availableTokens \<or> mustInclude item
             then addItem est item chunk else chunk)
          (filter mustInclude items @ filter (\<lambda>c. \<not> mustInclude c) items)
          (emptyChunk cid desc)"

definition pushNonEmpty :: "Chunk \<Rightarrow> Chunk list \<Rightarrow> Chunk list" where
  "pushNonEmpty chunk cks = (if changes chunk \<noteq> [] then cks @ [chunk] else cks)"

text \<open>
  The priority ranges of \<^verbatim>\<open>chunkBySeverity\<close>, with the chunk id that
  \<^verbatim>\<open>`severity-${name.toLowerCase().replace(/\s+/g, '-')}`\<close> gives for each name.
\<close>

definition priorityGroups :: "(int \<times> int \<times> string \<times> string) list" where
  "priorityGroups =
     [(CRITICAL_SECURITY - 10, CRITICAL_SECURITY + 10, ''Critical Security'',
         ''severity-critical-security''),
      (HIGH_SECURITY - 10, HIGH_SECURITY + 10, ''High Security'', ''severity-high-security''),
      (CRITICAL_BUG - 10, CRITICAL_BUG + 10, ''Critical Bugs'', ''severity-critical-bugs''),
      (HIGH_BUG - 10, HIGH_BUG + 10, ''High Priority'', ''severity-high-priority''),
      (0, MEDIUM_ISSUE + 10, ''Other Issues'', ''severity-other-issues'')]"

definition chunkBySeverity ::
  "(string \<Rightarrow> nat) \<Rightarrow> PrioritizedItem list \<Rightarrow> int \<Rightarrow> Chunk list" where
  "chunkBySeverity est items availableTokens =
     fold (\<lambda>(gmin, gmax, name, cid) cks.
             let groupContent = filter (\<lambda>c. priority c \<ge> gmin \<and> priority c \<le> gmax) items
             in if groupContent = [] then cks
                else pushNonEmpty (createSingleChunk est groupContent availableTokens cid name) cks)
          priorityGroups []"

text \<open>
  A \<^verbatim>\<open>Map\<close> of groups iterates in the order in which its keys were first set: an
  association list, where a known key keeps its place and gets the item appended.
\<close>

definition groupPush :: "string \<Rightarrow> 'a \<Rightarrow> (string \<times> 'a list) list \<Rightarrow> (string \<times> 'a list) list" where
  "groupPush k v m =
     (if k \<in> fst ` set m then map (\<lambda>(k', g). if k' = k then (k', g @ [v]) else (k', g)) m
      else m @ [(k, [v])])"

definition moduleOf :: "string \<Rightarrow> string" where
  "moduleOf f = (if firstSegment f = [] then ''root'' else firstSegment f)"

definition extensionOf :: "string \<Rightarrow> string" where
  "extensionOf f = (if lastDotSegment f = [] then ''unknown'' else lastDotSegment f)"

text \<open>
  \<^verbatim>\<open>Math.max(...group.map(c => c.priority))\<close>; every group of the map holds at least one
  item, so the empty case does not arise.
\<close>

definition maxPriority :: "PrioritizedItem list \<Rightarrow> int" where
  "maxPriority g = (case g of [] \<Rightarrow> 0 | x # xs \<Rightarrow> fold (\<lambda>c m. max m (priority c)) xs (priority x))"

definition chunkByModuleWith ::
  "((string \<times> PrioritizedItem list) list \<Rightarrow> (string \<times> PrioritizedItem list) list) \<Rightarrow>
   (string \<Rightarrow> nat) \<Rightarrow> PrioritizedItem list \<Rightarrow> int \<Rightarrow> Chunk list" where
  "chunkByModuleWith sortModules est items availableTokens =
     (let moduleGroups = fold (\<lambda>item m. groupPush (moduleOf (change_file (change item))) item m) items [];
          sortedModules = sortModules moduleGroups
      in fold (\<lambda>(module, moduleContent) cks.
                 pushNonEmpty (createSingleChunk est moduleContent availableTokens
                                 (''module-'' @ module) (''Module: '' @ module)) cks)
              sortedModules [])"

definition chunkByFileType ::
  "(string \<Rightarrow> nat) \<Rightarrow> PrioritizedItem list \<Rightarrow> int \<Rightarrow> Chunk list" where
  "chunkByFileType est items availableTokens =
     (let typeGroups = fold (\<lambda>item m. groupPush (extensionOf (change_file (change item))) item m) items []
      in fold (\<lambda>(type, typeContent) cks.
                 pushNonEmpty (createSingleChunk est typeContent availableTokens
                                 (''type-'' @ type) (''File Type: '' @ type)) cks)
              typeGroups [])"

definition smartChunkWith ::
  "((string \<times> PrioritizedItem list) list \<Rightarrow> (string \<times> PrioritizedItem list) list) \<Rightarrow>
   (string \<Rightarrow> nat) \<Rightarrow> PrioritizedItem list \<Rightarrow> int \<Rightarrow> Chunk list" where
  "smartChunkWith sortModules est items availableTokens =
     (let criticalContent = filter (\<lambda>c. mustInclude c \<or> priority c \<ge> CRITICAL_BUG) items;
          cks = (if criticalContent \<noteq> []
                 then pushNonEmpty (createSingleChunk est criticalContent availableTokens
                                      ''critical'' ''Critical Issues'') []
                 else []);
          remainingContent = filter (\<lambda>c. \<not> mustInclude c \<and> priority c < CRITICAL_BUG) items
      in cks @ chunkByModuleWith sortModules est remainingContent availableTokens)"

definition numberedChunk :: "nat \<Rightarrow> Chunk" where
  "numberedChunk n = emptyChunk (''chunk-'' @ decimal n) (''Chunk '' @ decimal n)"

fun chunkBySizeLoop ::
  "(string \<Rightarrow> nat) \<Rightarrow> int \<Rightarrow> PrioritizedItem list \<Rightarrow> Chunk list \<times> Chunk \<times> nat \<Rightarrow>
   Chunk list \<times> Chunk \<times> nat" where
  "chunkBySizeLoop est availableTokens [] st = st"
| "chunkBySizeLoop est availableTokens (item # rest) (cks, currentChunk, chunkCount) =
     (if tokenEstimate currentChunk + itemTokens est item > availableTokens
         \<and> changes currentChunk \<noteq> []
      then chunkBySizeLoop est availableTokens rest
             (cks @ [currentChunk], addItem est item (numberedChunk (chunkCount + 1)),
              chunkCount + 1)
      else chunkBySizeLoop est availableTokens rest
             (cks, addItem est item currentChunk, chunkCount))"

definition chunkBySize :: "(string \<Rightarrow> nat) \<Rightarrow> PrioritizedItem list \<Rightarrow> int \<Rightarrow> Chunk list" where
  "chunkBySize est items availableTokens =
     (case chunkBySizeLoop est availableTokens items ([], numberedChunk 1, 1) of
        (cks, currentChunk, chunkCount) \<Rightarrow> pushNonEmpty currentChunk cks)"

definition availableTokensOf :: "ContextWindowConfig \<Rightarrow> int \<Rightarrow> int" where
  "availableTokensOf config sysTokens = contextWindowSize config - reservedTokens config - sysTokens"

definition createChunksWith ::
  "((string \<times> PrioritizedItem list) list \<Rightarrow> (string \<times> PrioritizedItem list) list) \<Rightarrow>
   (string \<Rightarrow> nat) \<Rightarrow> ContextWindowConfig \<Rightarrow> PrioritizedItem list \<Rightarrow> ChunkStrategy \<Rightarrow> int \<Rightarrow>
   Chunk list" where
  "createChunksWith sortModules est config items strat sysTokens =
     (let availableTokens = availableTokensOf config sysTokens
      in case strat of
           BY_SEVERITY \<Rightarrow> chunkBySeverity est items availableTokens
         | BY_MODULE \<Rightarrow> chunkByModuleWith sortModules est items availableTokens
         | BY_FILE_TYPE \<Rightarrow> chunkByFileType est items availableTokens
         | SMART \<Rightarrow> smartChunkWith sortModules est items availableTokens
         | BY_SIZE \<Rightarrow> chunkBySize est items availableTokens)"

definition recommendChunkStrategy :: "CodeChange list \<Rightarrow> AnalysisFinding list \<Rightarrow> ChunkStrategy" where
  "recommendChunkStrategy cs fs =
     (let criticalCount = length (filter (\<lambda>f. severity f = Critical) fs);
          highCount = length (filter (\<lambda>f. severity f = High) fs)
      in if criticalCount > 5 \<or> criticalCount + highCount > 10 then BY_SEVERITY
         else if length (remdups (map (\<lambda>c. firstSegment (change_file c)) cs)) > 5 then BY_MODULE
         else if length cs > 20 then SMART
         else BY_SIZE)"

definition strategyOf :: "ChunkOptions \<Rightarrow> CodeChange list \<Rightarrow> AnalysisFinding list \<Rightarrow> ChunkStrategy" where
  "strategyOf opts cs fs =
     (case strategy opts of Some s \<Rightarrow> s | None \<Rightarrow> recommendChunkStrategy cs fs)"

text \<open>\<^verbatim>\<open>options.systemPromptTokens || 500\<close>: an absent or zero option gives 500.\<close>

definition systemPromptTokensOf :: "ChunkOptions \<Rightarrow> int" where
  "systemPromptTokensOf opts =
     (case systemPromptTokens opts of None \<Rightarrow> 500 | Some n \<Rightarrow> if n = 0 then 500 else n)"

definition analyzeAndChunkWith ::
  "(PrioritizedItem list \<Rightarrow> PrioritizedItem list) \<Rightarrow>
   ((string \<times> PrioritizedItem list) list \<Rightarrow> (string \<times> PrioritizedItem list) list) \<Rightarrow>
   (string \<Rightarrow> nat) \<Rightarrow> ContextWindowConfig \<Rightarrow> CodeChange list \<Rightarrow> AnalysisFinding list \<Rightarrow>
   ChunkOptions \<Rightarrow> Analysis" where
  "analyzeAndChunkWith sortItems sortModules est config cs fs opts =
     (let strat = strategyOf opts cs fs;
          sysTokens = systemPromptTokensOf opts;
          prioritizedContent = prioritizeContentWith sortItems cs fs (forceIncludeFiles opts);
          cks = createChunksWith sortModules est config prioritizedContent strat sysTokens
      in \<lparr>chunks = cks,
          summary = \<lparr>totalChanges = int (length cs),
                     totalFindings = int (length fs),
                     criticalFindings = int (length (filter (\<lambda>f. severity f = Critical) fs)),
                     estimatedTotalTokens = calculateTotalTokens est cs fs,
                     recommendedStrategy = strat\<rparr>\<rparr>)"

text \<open>The planner on an engine whose sort is \<open>jsSort\<close>.\<close>

definition prioritizeContent ::
  "CodeChange list \<Rightarrow> AnalysisFinding list \<Rightarrow> string list option \<Rightarrow> PrioritizedItem list" where
  "prioritizeContent = prioritizeContentWith (jsSort priority)"

definition analyzeAndChunk ::
  "(string \<Rightarrow> nat) \<Rightarrow> ContextWindowConfig \<Rightarrow> CodeChange list \<Rightarrow> AnalysisFinding list \<Rightarrow>
   ChunkOptions \<Rightarrow> Analysis" where
  "analyzeAndChunk =
     analyzeAndChunkWith (jsSort priority) (jsSort (\<lambda>entry. maxPriority (snd entry)))"

section \<open>The review service\<close>

datatype Verdict = Approve | RequestChanges | Comment

datatype Impact = ImpactCritical | ImpactHigh | ImpactMedium | ImpactLow

record ReviewSummary =
  verdict :: Verdict
  confidence :: rat
  message :: string
  healthScore :: "rat option"

record ReviewComment =
  comment_file :: string
  comment_line :: int
  comment_message :: string

record CodeSuggestion =
  suggestion_id :: string
  suggestion_file :: string

record ReviewMetrics =
  issuesFound :: int
  criticalIssues :: int
  improvements :: int
  estimatedImpact :: Impact

record TokenUsage =
  promptTokens :: int
  completionTokens :: int
  totalTokens :: int
  usage_model :: string
  estimatedCost :: rat

record Review =
  review_summary :: ReviewSummary
  comments :: "ReviewComment list"
  suggestions :: "CodeSuggestion list"
  metrics :: ReviewMetrics
  usage :: TokenUsage

record ChunkInfo =
  current :: int
  total :: int
  info_description :: string
  info_priority :: int

record CodeReviewRequest =
  req_changes :: "CodeChange list"
  req_findings :: "AnalysisFinding list"
  criticalFiles :: "string list option"
  chunkInfo :: "ChunkInfo option"

datatype error = Error string

text \<open>
  \<^verbatim>\<open>determineOverallImpact\<close> works on the strings of the impacts and also looks for
  \<^verbatim>\<open>'critical'\<close>, which the type of \<^verbatim>\<open>estimatedImpact\<close> does not list.
\<close>

definition determineOverallImpact :: "Impact list \<Rightarrow> Impact" where
  "determineOverallImpact impacts =
     (if ImpactCritical \<in> set impacts then ImpactCritical
      else if ImpactHigh \<in> set impacts then ImpactHigh
      else if ImpactMedium \<in> set impacts then ImpactMedium
      else ImpactLow)"

definition overallVerdict :: "Verdict list \<Rightarrow> Verdict" where
  "overallVerdict verdicts =
     (if RequestChanges \<in> set verdicts then RequestChanges
      else if Comment \<in> set verdicts then Comment
      else Approve)"

definition mergeMessage :: "Analysis \<Rightarrow> string" where
  "mergeMessage analysis =
     ''Reviewed '' @ numberString (totalChanges (summary analysis)) @ '' changes across ''
     @ decimal (length (chunks analysis)) @ '' chunks using ''
     @ strategy_string (recommendedStrategy (summary analysis)) @ '' strategy. Found ''
     @ numberString (criticalFindings (summary analysis)) @ '' critical issues.''"

definition mergeChunkReviews :: "Review list \<Rightarrow> Analysis \<Rightarrow> error + Review" where
  "mergeChunkReviews rs analysis =
     (case rs of
        [] \<Rightarrow> Inl (Error ''No reviews to merge'')
      | [r] \<Rightarrow> Inr r
      | r0 # _ \<Rightarrow>
          Inr \<lparr>review_summary =
                 \<lparr>verdict = overallVerdict (map (\<lambda>r. verdict (review_summary r)) rs),
                  confidence =
                    fold (\<lambda>r sum. sum + confidence (review_summary r)) rs 0 / of_nat (length rs),
                  message = mergeMessage analysis,
                  healthScore = None\<rparr>,
               comments = concat (map comments rs),
               suggestions = concat (map suggestions rs),
               metrics =
                 \<lparr>issuesFound = fold (\<lambda>r sum. sum + issuesFound (metrics r)) rs 0,
                  criticalIssues = fold (\<lambda>r sum. sum + criticalIssues (metrics r)) rs 0,
                  improvements = fold (\<lambda>r sum. sum + improvements (metrics r)) rs 0,
                  estimatedImpact =
                    determineOverallImpact (map (\<lambda>r. estimatedImpact (metrics r)) rs)\<rparr>,
               usage =
                 \<lparr>promptTokens = fold (\<lambda>r sum. sum + promptTokens (usage r)) rs 0,
                  completionTokens = fold (\<lambda>r sum. sum + completionTokens (usage r)) rs 0,
                  totalTokens = fold (\<lambda>r sum. sum + totalTokens (usage r)) rs 0,
                  usage_model = usage_model (usage r0),
                  estimatedCost = fold (\<lambda>r sum. sum + estimatedCost (usage r)) rs 0\<rparr>\<rparr>)"

text \<open>
  \<^verbatim>\<open>this.config.costLimit && totalCost > this.config.costLimit\<close>: an absent limit and a
  limit of zero are both falsy, and then nothing stops the loop.
\<close>

definition overCostLimit :: "rat option \<Rightarrow> rat \<Rightarrow> bool" where
  "overCostLimit costLimit totalCost =
     (case costLimit of None \<Rightarrow> False | Some l \<Rightarrow> l \<noteq> 0 \<and> totalCost > l)"

text \<open>
  The state of the chunk loop: the two variables of the source, and what it writes to the
  console. \<open>dispatches\<close> has an entry for each \<^verbatim>\<open>Processing chunk\<close> line, that is for each
  call of \<^verbatim>\<open>generateReviewWithRetry\<close>: the index of the chunk and the value of
  \<^verbatim>\<open>totalCost\<close> when the call begins. \<open>costStop\<close> says that the loop left through
  \<^verbatim>\<open>break\<close> with the \<^verbatim>\<open>Stopping chunk processing\<close> warning. The sum in
  \<open>totalCost\<close> is exact, where the code adds doubles; the concrete runs below use costs
  whose sums are exact in doubles too.
\<close>

record LoopState =
  reviews :: "Review list"
  totalCost :: rat
  dispatches :: "(nat \<times> rat) list"
  costStop :: bool

definition initLoop :: LoopState where
  "initLoop = \<lparr>reviews = [], totalCost = 0, dispatches = [], costStop = False\<rparr>"

definition chunkRequest :: "CodeReviewRequest \<Rightarrow> nat \<Rightarrow> nat \<Rightarrow> Chunk \<Rightarrow> CodeReviewRequest" where
  "chunkRequest request n i chunk =
     request\<lparr>req_changes := changes chunk,
             req_findings := findings chunk,
             chunkInfo := Some \<lparr>current = int i + 1, total = int n,
                                info_description = description chunk,
                                info_priority = chunk_priority chunk\<rparr>\<rparr>"

text \<open>
  \<^verbatim>\<open>generateReviewWithRetry\<close> calls the analysis service: for the loop it is a function
  \<open>gen\<close> from the request of a chunk to a review or a thrown error. The requests of one run
  differ in \<^verbatim>\<open>chunkInfo.current\<close>, so \<open>gen\<close> can answer each dispatch on its own.
\<close>

fun chunkLoop ::
  "(CodeReviewRequest \<Rightarrow> error + Review) \<Rightarrow> rat option \<Rightarrow> CodeReviewRequest \<Rightarrow> nat \<Rightarrow> nat \<Rightarrow>
   Chunk list \<Rightarrow> LoopState \<Rightarrow> LoopState" where
  "chunkLoop gen costLimit request n i [] st = st"
| "chunkLoop gen costLimit request n i (chunk # rest) st =
     (let st1 = st\<lparr>dispatches := dispatches st @ [(i, totalCost st)]\<rparr>
      in case gen (chunkRequest request n i chunk) of
           Inl e \<Rightarrow> chunkLoop gen costLimit request n (i + 1) rest st1
         | Inr review \<Rightarrow>
             (let st2 = st1\<lparr>reviews := reviews st1 @ [review],
                            totalCost := totalCost st1 + estimatedCost (usage review)\<rparr>
              in if overCostLimit costLimit (totalCost st2) then st2\<lparr>costStop := True\<rparr>
                 else chunkLoop gen costLimit request n (i + 1) rest st2))"

text \<open>
  \<^verbatim>\<open>reviewWithEnhancedContext\<close> reads two things of the service besides its argument: the
  configuration of its context manager and \<^verbatim>\<open>config.costLimit\<close>. \<open>planFor\<close> is its first
  statement, the call of \<^verbatim>\<open>analyzeAndChunk\<close>; \<open>runLoop\<close> is its loop over the chunks of
  the plan.
\<close>

definition planFor ::
  "(string \<Rightarrow> nat) \<Rightarrow> ContextWindowConfig \<Rightarrow> CodeReviewRequest \<Rightarrow> Analysis" where
  "planFor est config request =
     analyzeAndChunk est config (req_changes request) (req_findings request)
       \<lparr>strategy = None, systemPromptTokens = Some 500,
        forceIncludeFiles = criticalFiles request\<rparr>"

definition runLoop ::
  "(string \<Rightarrow> nat) \<Rightarrow> ContextWindowConfig \<Rightarrow> rat option \<Rightarrow>
   (CodeReviewRequest \<Rightarrow> error + Review) \<Rightarrow> CodeReviewRequest \<Rightarrow> LoopState" where
  "runLoop est config costLimit gen request =
     (let cks = chunks (planFor est config request)
      in chunkLoop gen costLimit request (length cks) 0 cks initLoop)"


section \<open>Specification-side definitions\<close>

text \<open>
  The dominance order of verdicts as the specification words it:
  \<^verbatim>\<open>request-changes > comment > approve\<close>, and the dominant value of a list taken pair by
  pair.
\<close>

definition verdictRank :: "Verdict \<Rightarrow> nat" where
  "verdictRank v = (case v of Approve \<Rightarrow> 0 | Comment \<Rightarrow> 1 | RequestChanges \<Rightarrow> 2)"

definition dominant :: "Verdict \<Rightarrow> Verdict \<Rightarrow> Verdict" where
  "dominant a b = (if verdictRank b \<le> verdictRank a then a else b)"

definition dominantVerdict :: "Verdict list \<Rightarrow> Verdict" where
  "dominantVerdict vs = fold dominant vs Approve"

text \<open>
  Greedy filling of one chunk, in words: go through the items once; an item that fits
  next to what is already kept, or that must be included, is kept; any other item is
  skipped. \<open>used\<close> is the token estimate of the items kept so far.
\<close>

fun keptItems :: "(string \<Rightarrow> nat) \<Rightarrow> int \<Rightarrow> int \<Rightarrow> PrioritizedItem list \<Rightarrow> PrioritizedItem list" where
  "keptItems est B used [] = []"
| "keptItems est B used (item # rest) =
     (if used + itemTokens est item \<le> B \<or> mustInclude item
      then item # keptItems est B (used + itemTokens est item) rest
      else keptItems est B used rest)"

definition fillOrder :: "PrioritizedItem list \<Rightarrow> PrioritizedItem list" where
  "fillOrder items = filter mustInclude items @ filter (\<lambda>c. \<not> mustInclude c) items"

section \<open>Concrete inputs\<close>

text \<open>
  A manager built with \<^verbatim>\<open>{contextWindowSize: 4600}\<close>: with 4000 reserved tokens and 500
  tokens of system prompt, 100 tokens are available. Changes without hunks are estimated
  at the base overhead of 50 tokens and a finding at 60, so the examples below do not
  depend on the estimator.
\<close>

definition smallWindow :: ContextWindowConfig where
  "smallWindow =
     \<lparr>model = ''gpt-4-turbo-preview'', contextWindowSize = 4600, reservedTokens = 4000,
      enableSmartChunking = True, prioritizeSecurityIssues = True, maxChunks = 10\<rparr>"

definition bareChange :: "string \<Rightarrow> ChangeType \<Rightarrow> CodeChange" where
  "bareChange f t = \<lparr>change_file = f, changeType = t, hunks = []\<rparr>"

definition lowFinding :: "string \<Rightarrow> AnalysisFinding" where
  "lowFinding f =
     \<lparr>finding_id = ''f1'', finding_type = Style, severity = Low, finding_file = f\<rparr>"

definition withStrategy :: "ChunkStrategy option \<Rightarrow> string list option \<Rightarrow> ChunkOptions" where
  "withStrategy s force = \<lparr>strategy = s, systemPromptTokens = None, forceIncludeFiles = force\<rparr>"

definition requestFor :: "CodeChange list \<Rightarrow> CodeReviewRequest" where
  "requestFor cs = \<lparr>req_changes = cs, req_findings = [], criticalFiles = None, chunkInfo = None\<rparr>"

definition fiveChanges :: "CodeChange list" where
  "fiveChanges =
     [bareChange ''a.ts'' Modified, bareChange ''b.ts'' Modified, bareChange ''c.ts'' Modified,
      bareChange ''d.ts'' Modified, bareChange ''e.ts'' Modified]"

text \<open>A review that approves, reports nothing and has the given cost.\<close>

definition reviewCosting :: "rat \<Rightarrow> Review" where
  "reviewCosting c =
     \<lparr>review_summary = \<lparr>verdict = Approve, confidence = 1, message = ''ok'', healthScore = None\<rparr>,
      comments = [], suggestions = [],
      metrics = \<lparr>issuesFound = 0, criticalIssues = 0, improvements = 0,
                 estimatedImpact = ImpactLow\<rparr>,
      usage = \<lparr>promptTokens = 0, completionTokens = 0, totalTokens = 0,
               usage_model = ''gpt-4-turbo-preview'', estimatedCost = c\<rparr>\<rparr>"

definition reviewWithVerdict :: "Verdict \<Rightarrow> Review" where
  "reviewWithVerdict v =
     (reviewCosting 0)\<lparr>review_summary :=
        \<lparr>verdict = v, confidence = 1, message = ''ok'', healthScore = None\<rparr>\<rparr>"

text \<open>
  An analysis service that answers the request of chunk \<open>i\<close> with a review of the
  \<open>i\<close>-th cost, and fails on a request without chunk information or beyond the list.
\<close>

definition priceList :: "rat list \<Rightarrow> CodeReviewRequest \<Rightarrow> error + Review" where
  "priceList costs request =
     (case chunkInfo request of
        None \<Rightarrow> Inl (Error ''analysis failed'')
      | Some info \<Rightarrow>
          if 1 \<le> current info \<and> nat (current info) \<le> length costs
          then Inr (reviewCosting (costs ! (nat (current info) - 1)))
          else Inl (Error ''analysis failed''))"

section \<open>Size-based chunking is a partition\<close>

lemma chunkBySizeLoop_changes:
  "chunkBySizeLoop est B items (cks, cur, n) = (cks', cur', n') \<Longrightarrow>
   concat (map changes cks') @ changes cur' =
   concat (map changes cks) @ changes cur @ map change items"
proof (induction items arbitrary: cks cur n)
  case Nil
  then show ?case by simp
next
  case (Cons item rest)
  show ?case
  proof (cases "tokenEstimate cur + itemTokens est item > B \<and> changes cur \<noteq> []")
    case True
    with Cons.prems have
      "chunkBySizeLoop est B rest
         (cks @ [cur], addItem est item (numberedChunk (n + 1)), n + 1) = (cks', cur', n')"
      by simp
    from Cons.IH[OF this] show ?thesis
      by (simp add: addItem_def numberedChunk_def emptyChunk_def)
  next
    case False
    with Cons.prems have
      "chunkBySizeLoop est B rest (cks, addItem est item cur, n) = (cks', cur', n')"
      by auto
    from Cons.IH[OF this] show ?thesis
      by (simp add: addItem_def)
  qed
qed

lemma concat_pushNonEmpty:
  "concat (map changes (pushNonEmpty ck cks)) = concat (map changes cks) @ changes ck"
  by (simp add: pushNonEmpty_def)

text \<open>
  Claim C10. \<^verbatim>\<open>chunkBySize\<close> partitions its input: the changes of the chunks, read chunk
  after chunk, are the changes of the prioritized items in their input order. So every
  item is in exactly one chunk, none is dropped or repeated, whatever the budget and the
  size of an item.
\<close>

theorem chunkBySize_partition:
  "concat (map changes (chunkBySize est items B)) = map change items"
proof -
  obtain cks cur n where
    loop: "chunkBySizeLoop est B items ([], numberedChunk 1, 1) = (cks, cur, n)"
    by (metis prod_cases3)
  from chunkBySizeLoop_changes[OF loop]
  have "concat (map changes cks) @ changes cur = map change items"
    by (simp add: numberedChunk_def emptyChunk_def)
  with loop show ?thesis
    by (simp add: chunkBySize_def concat_pushNonEmpty)
qed

section \<open>Token budget of the chunks\<close>

lemma fold_chunks_pres:
  assumes "\<forall>c\<in>set init. P c"
    and "\<And>x cks. x \<in> set xs \<Longrightarrow> \<forall>c\<in>set cks. P c \<Longrightarrow> \<forall>c\<in>set (step x cks). P c"
  shows "\<forall>c\<in>set (fold step xs init). P c"
  using assms
proof (induction xs arbitrary: init)
  case Nil
  then show ?case by simp
next
  case (Cons x xs)
  have "\<forall>c\<in>set (step x init). P c"
    using Cons.prems(1) Cons.prems(2)[of x init] by simp
  moreover have "\<forall>c\<in>set (step y cks). P c" if "y \<in> set xs" "\<forall>c\<in>set cks. P c" for y cks
    using Cons.prems(2)[of y cks] that by simp
  ultimately have "\<forall>c\<in>set (fold step xs (step x init)). P c"
    by (rule Cons.IH)
  then show ?case by simp
qed

lemma set_jsSort: "set (jsSort key xs) = set xs"
  by (simp add: jsSort_def)

lemma fit_fold_budget:
  assumes "\<forall>i\<in>set xs. \<not> mustInclude i"
    and "changes ck = [] \<or> tokenEstimate ck \<le> B"
  shows "changes (fold (\<lambda>item chunk.
             if tokenEstimate chunk + itemTokens est item \<le> B \<or> mustInclude item
             then addItem est item chunk else chunk) xs ck) = []
       \<or> tokenEstimate (fold (\<lambda>item chunk.
             if tokenEstimate chunk + itemTokens est item \<le> B \<or> mustInclude item
             then addItem est item chunk else chunk) xs ck) \<le> B"
  using assms
proof (induction xs arbitrary: ck)
  case Nil
  then show ?case by simp
next
  case (Cons x xs)
  let ?ck' = "if tokenEstimate ck + itemTokens est x \<le> B \<or> mustInclude x then addItem est x ck else ck"
  have "changes ?ck' = [] \<or> tokenEstimate ?ck' \<le> B"
    using Cons.prems by (auto simp: addItem_def)
  moreover have "\<forall>i\<in>set xs. \<not> mustInclude i" using Cons.prems by simp
  ultimately show ?case
    using Cons.IH[of ?ck'] by simp
qed

lemma createSingleChunk_budget:
  assumes "\<forall>i\<in>set items. \<not> mustInclude i"
  shows "changes (createSingleChunk est items B cid d) = []
         \<or> tokenEstimate (createSingleChunk est items B cid d) \<le> B"
  unfolding createSingleChunk_def
  by (rule fit_fold_budget) (use assms in \<open>auto simp: emptyChunk_def\<close>)

lemma pushNonEmpty_pres:
  assumes "\<forall>c\<in>set cks. P c" and "changes ck \<noteq> [] \<Longrightarrow> P ck"
  shows "\<forall>c\<in>set (pushNonEmpty ck cks). P c"
  using assms by (auto simp: pushNonEmpty_def)

lemma groupPush_members:
  assumes "(k, g) \<in> set (groupPush k0 v m)" and "x \<in> set g"
  shows "x = v \<or> (\<exists>k' g'. (k', g') \<in> set m \<and> x \<in> set g')"
  using assms by (auto simp: groupPush_def split: if_splits)

lemma fold_groupPush_members:
  assumes "(k, g) \<in> set (fold (\<lambda>item m. groupPush (key item) item m) items m0)" and "x \<in> set g"
  shows "x \<in> set items \<or> (\<exists>k' g'. (k', g') \<in> set m0 \<and> x \<in> set g')"
  using assms
proof (induction items arbitrary: m0)
  case Nil
  then show ?case by auto
next
  case (Cons item items)
  from Cons.IH[of "groupPush (key item) item m0"] Cons.prems
  have "x \<in> set items \<or> (\<exists>k' g'. (k', g') \<in> set (groupPush (key item) item m0) \<and> x \<in> set g')"
    by simp
  then show ?case
    using groupPush_members[of _ _ "key item" item m0 x] by auto
qed

lemma chunkBySeverity_budget:
  assumes "\<forall>i\<in>set items. \<not> mustInclude i"
  shows "\<forall>c\<in>set (chunkBySeverity est items B). tokenEstimate c \<le> B"
  unfolding chunkBySeverity_def
proof (rule fold_chunks_pres)
  show "\<forall>c\<in>set []. tokenEstimate c \<le> B" by simp
next
  fix x :: "int \<times> int \<times> string \<times> string" and cks :: "Chunk list"
  assume pres: "\<forall>c\<in>set cks. tokenEstimate c \<le> B"
  obtain gmin gmax name cid where x: "x = (gmin, gmax, name, cid)"
    by (cases x) auto
  let ?g = "filter (\<lambda>c. priority c \<ge> gmin \<and> priority c \<le> gmax) items"
  have "\<forall>i\<in>set ?g. \<not> mustInclude i" using assms by simp
  from createSingleChunk_budget[OF this, of est B cid name]
  have "\<forall>c\<in>set (pushNonEmpty (createSingleChunk est ?g B cid name) cks). tokenEstimate c \<le> B"
    using pres by (intro pushNonEmpty_pres) auto
  then show "\<forall>c\<in>set ((case x of (gmin, gmax, name, cid) \<Rightarrow> \<lambda>cks.
             let groupContent = filter (\<lambda>c. priority c \<ge> gmin \<and> priority c \<le> gmax) items
             in if groupContent = [] then cks
                else pushNonEmpty (createSingleChunk est groupContent B cid name) cks) cks). tokenEstimate c \<le> B"
    using pres by (simp add: x Let_def)
qed

lemma group_chunks_budget:
  fixes groups :: "(string \<times> PrioritizedItem list) list"
  assumes "\<forall>(k, g)\<in>set groups. \<forall>i\<in>set g. \<not> mustInclude i"
  shows "\<forall>c\<in>set (fold (\<lambda>(k, g) cks. pushNonEmpty (createSingleChunk est g B (idf k) (df k)) cks) groups []).
           tokenEstimate c \<le> B"
proof (rule fold_chunks_pres)
  show "\<forall>c\<in>set []. tokenEstimate c \<le> B" by simp
next
  fix x :: "string \<times> PrioritizedItem list" and cks :: "Chunk list"
  assume xin: "x \<in> set groups" and pres: "\<forall>c\<in>set cks. tokenEstimate c \<le> B"
  obtain k g where x: "x = (k, g)" by (cases x) auto
  have "\<forall>i\<in>set g. \<not> mustInclude i" using assms xin x by auto
  from createSingleChunk_budget[OF this, of est B "idf k" "df k"]
  have "\<forall>c\<in>set (pushNonEmpty (createSingleChunk est g B (idf k) (df k)) cks). tokenEstimate c \<le> B"
    using pres by (intro pushNonEmpty_pres) auto
  then show "\<forall>c\<in>set ((case x of (k, g) \<Rightarrow> \<lambda>cks. pushNonEmpty (createSingleChunk est g B (idf k) (df k)) cks) cks). tokenEstimate c \<le> B"
    by (simp add: x)
qed

lemma chunkByModule_budget:
  assumes "\<forall>i\<in>set items. \<not> mustInclude i"
  shows "\<forall>c\<in>set (chunkByModuleWith (jsSort key) est items B). tokenEstimate c \<le> B"
  unfolding chunkByModuleWith_def Let_def
proof (rule group_chunks_budget[where idf = "\<lambda>m. ''module-'' @ m" and df = "\<lambda>m. ''Module: '' @ m"])
  show "\<forall>(k, g)\<in>set (jsSort key (fold (\<lambda>item. groupPush (moduleOf (change_file (change item))) item) items [])).
       \<forall>i\<in>set g. \<not> mustInclude i"
    using fold_groupPush_members[of _ _ "\<lambda>item. moduleOf (change_file (change item))" items "[]"] assms
    by (fastforce simp: set_jsSort)
qed

lemma chunkByFileType_budget:
  assumes "\<forall>i\<in>set items. \<not> mustInclude i"
  shows "\<forall>c\<in>set (chunkByFileType est items B). tokenEstimate c \<le> B"
  unfolding chunkByFileType_def Let_def
proof (rule group_chunks_budget[where idf = "\<lambda>m. ''type-'' @ m" and df = "\<lambda>m. ''File Type: '' @ m"])
  show "\<forall>(k, g)\<in>set (fold (\<lambda>item. groupPush (extensionOf (change_file (change item))) item) items []).
       \<forall>i\<in>set g. \<not> mustInclude i"
    using fold_groupPush_members[of _ _ "\<lambda>item. extensionOf (change_file (change item))" items "[]"] assms
    by fastforce
qed

lemma smartChunk_budget:
  assumes "\<forall>i\<in>set items. \<not> mustInclude i"
  shows "\<forall>c\<in>set (smartChunkWith (jsSort key) est items B). tokenEstimate c \<le> B"
proof -
  let ?crit = "filter (\<lambda>c. mustInclude c \<or> priority c \<ge> CRITICAL_BUG) items"
  let ?rest = "filter (\<lambda>c. \<not> mustInclude c \<and> priority c < CRITICAL_BUG) items"
  have "\<forall>i\<in>set ?crit. \<not> mustInclude i" using assms by simp
  from createSingleChunk_budget[OF this, of est B "''critical''" "''Critical Issues''"]
  have a: "\<forall>c\<in>set (pushNonEmpty (createSingleChunk est ?crit B ''critical'' ''Critical Issues'') []). tokenEstimate c \<le> B"
    by (intro pushNonEmpty_pres) auto
  have "\<forall>i\<in>set ?rest. \<not> mustInclude i" by simp
  from chunkByModule_budget[OF this]
  have b: "\<forall>c\<in>set (chunkByModuleWith (jsSort key) est ?rest B). tokenEstimate c \<le> B" .
  show ?thesis
    using a b by (auto simp: smartChunkWith_def Let_def)
qed

lemma chunkBySizeLoop_budget:
  assumes "chunkBySizeLoop est B items (cks, cur, n) = (cks', cur', n')"
    and "\<forall>c\<in>set cks. tokenEstimate c \<le> B \<or> length (changes c) = 1"
    and "changes cur = [] \<or> tokenEstimate cur \<le> B \<or> length (changes cur) = 1"
  shows "(\<forall>c\<in>set cks'. tokenEstimate c \<le> B \<or> length (changes c) = 1)
         \<and> (changes cur' = [] \<or> tokenEstimate cur' \<le> B \<or> length (changes cur') = 1)"
  using assms
proof (induction items arbitrary: cks cur n)
  case Nil
  then show ?case by simp
next
  case (Cons item rest)
  show ?case
  proof (cases "tokenEstimate cur + itemTokens est item > B \<and> changes cur \<noteq> []")
    case True
    with Cons.prems(1) have loop:
      "chunkBySizeLoop est B rest
         (cks @ [cur], addItem est item (numberedChunk (n + 1)), n + 1) = (cks', cur', n')"
      by simp
    have "\<forall>c\<in>set (cks @ [cur]). tokenEstimate c \<le> B \<or> length (changes c) = 1"
      using Cons.prems(2,3) True by auto
    moreover have "length (changes (addItem est item (numberedChunk (n + 1)))) = 1"
      by (simp add: addItem_def numberedChunk_def emptyChunk_def)
    ultimately show ?thesis
      using Cons.IH[OF loop] by blast
  next
    case False
    with Cons.prems(1) have loop:
      "chunkBySizeLoop est B rest (cks, addItem est item cur, n) = (cks', cur', n')"
      by auto
    have "tokenEstimate (addItem est item cur) \<le> B
          \<or> length (changes (addItem est item cur)) = 1"
      using False by (auto simp: addItem_def)
    then show ?thesis
      using Cons.IH[OF loop Cons.prems(2)] by blast
  qed
qed

lemma chunkBySize_budget:
  "\<forall>c\<in>set (chunkBySize est items B). tokenEstimate c \<le> B \<or> length (changes c) = 1"
proof -
  obtain cks cur n where
    loop: "chunkBySizeLoop est B items ([], numberedChunk 1, 1) = (cks, cur, n)"
    by (metis prod_cases3)
  have "(\<forall>c\<in>set cks. tokenEstimate c \<le> B \<or> length (changes c) = 1)
        \<and> (changes cur = [] \<or> tokenEstimate cur \<le> B \<or> length (changes cur) = 1)"
    by (rule chunkBySizeLoop_budget[OF loop]) (simp_all add: numberedChunk_def emptyChunk_def)
  then show ?thesis
    using loop by (auto simp: chunkBySize_def pushNonEmpty_def)
qed

lemma mustInclude_prioritizeItem:
  "mustInclude (prioritizeItem fs force c) = isForced force (change_file c)"
  by (simp add: prioritizeItem_def Let_def)

lemma change_prioritizeItem: "change (prioritizeItem fs force c) = c"
  by (simp add: prioritizeItem_def Let_def)

text \<open>
  Claim C1, as the code has it. When no change is force-included, a chunk of the
  by-severity, by-module, by-file-type and smart strategies stays within the available
  tokens. The by-size strategy puts an item into the current chunk whenever that chunk is
  empty, so there a chunk stays within the available tokens or holds a single change.
\<close>

theorem analyzeAndChunk_budget:
  assumes "\<forall>c\<in>set cs. \<not> isForced (forceIncludeFiles opts) (change_file c)"
    and "ck \<in> set (chunks (analyzeAndChunk est config cs fs opts))"
  shows "tokenEstimate ck \<le> availableTokensOf config (systemPromptTokensOf opts)
         \<or> (strategyOf opts cs fs = BY_SIZE \<and> length (changes ck) = 1)"
proof -
  let ?items = "prioritizeContentWith (jsSort priority) cs fs (forceIncludeFiles opts)"
  let ?B = "availableTokensOf config (systemPromptTokensOf opts)"
  let ?sm = "jsSort (\<lambda>entry. maxPriority (snd entry))"
  have free: "\<forall>i\<in>set ?items. \<not> mustInclude i"
    using assms(1)
    by (auto simp: prioritizeContentWith_def set_jsSort mustInclude_prioritizeItem
        change_prioritizeItem)
  have ck: "ck \<in> set (createChunksWith ?sm est config ?items (strategyOf opts cs fs)
                         (systemPromptTokensOf opts))"
    using assms(2) by (simp add: analyzeAndChunk_def analyzeAndChunkWith_def Let_def)
  show ?thesis
  proof (cases "strategyOf opts cs fs")
    case BY_MODULE
    with ck chunkByModule_budget[OF free] show ?thesis
      by (auto simp: createChunksWith_def Let_def)
  next
    case BY_SEVERITY
    with ck chunkBySeverity_budget[OF free] show ?thesis
      by (auto simp: createChunksWith_def Let_def)
  next
    case BY_FILE_TYPE
    with ck chunkByFileType_budget[OF free] show ?thesis
      by (auto simp: createChunksWith_def Let_def)
  next
    case BY_SIZE
    with ck chunkBySize_budget[of est ?items ?B] show ?thesis
      by (auto simp: createChunksWith_def Let_def)
  next
    case SMART
    with ck smartChunk_budget[OF free] show ?thesis
      by (auto simp: createChunksWith_def Let_def)
  qed
qed

text \<open>
  One change without hunks and with one finding is estimated at 110 tokens; with 100
  tokens available the by-size strategy still returns it, as a chunk of its own.
\<close>

theorem analyzeAndChunk_budget_counterexample:
  "map tokenEstimate
     (chunks (analyzeAndChunk length smallWindow [bareChange ''a.ts'' Modified]
                [lowFinding ''a.ts''] (withStrategy None None))) = [110]
   \<and> availableTokensOf smallWindow (systemPromptTokensOf (withStrategy None None)) = 100"
  by code_simp

theorem analyzeAndChunk_budget_witness:
  "list_all (\<lambda>c. \<not> isForced (forceIncludeFiles (withStrategy None None)) (change_file c))
     [bareChange ''a.ts'' Modified, bareChange ''b.ts'' Modified, bareChange ''c.ts'' Modified]
   \<and> \<lparr>chunk_id = ''chunk-1'', chunk_priority = 20,
       changes = [bareChange ''a.ts'' Modified, bareChange ''b.ts'' Modified],
       findings = [], tokenEstimate = 100, description = ''Chunk 1''\<rparr>
     \<in> set (chunks (analyzeAndChunk length smallWindow
              [bareChange ''a.ts'' Modified, bareChange ''b.ts'' Modified,
               bareChange ''c.ts'' Modified]
              [] (withStrategy None None)))
   \<and> (100::int) \<le> availableTokensOf smallWindow (systemPromptTokensOf (withStrategy None None))"
proof -
  have h1: "\<forall>c\<in>set [bareChange ''a.ts'' Modified, bareChange ''b.ts'' Modified,
                     bareChange ''c.ts'' Modified].
       \<not> isForced (forceIncludeFiles (withStrategy None None)) (change_file c)"
    by code_simp
  have h2: "\<lparr>chunk_id = ''chunk-1'', chunk_priority = 20,
       changes = [bareChange ''a.ts'' Modified, bareChange ''b.ts'' Modified],
       findings = [], tokenEstimate = 100, description = ''Chunk 1''\<rparr>
     \<in> set (chunks (analyzeAndChunk length smallWindow
              [bareChange ''a.ts'' Modified, bareChange ''b.ts'' Modified,
               bareChange ''c.ts'' Modified]
              [] (withStrategy None None)))"
    by code_simp
  from analyzeAndChunk_budget[OF h1 h2] h1 h2 show ?thesis
    by (simp add: list_all_iff)
qed

section \<open>Verdict of a merged review\<close>

lemma fold_dominant:
  "fold dominant vs acc =
     (if RequestChanges \<in> set vs \<or> acc = RequestChanges then RequestChanges
      else if Comment \<in> set vs \<or> acc = Comment then Comment else Approve)"
proof (induction vs arbitrary: acc)
  case Nil
  then show ?case by (cases acc) simp_all
next
  case (Cons v vs)
  then show ?case
    by (cases v; cases acc) (simp_all add: dominant_def verdictRank_def)
qed

lemma overallVerdict_dominant: "overallVerdict vs = dominantVerdict vs"
  by (simp add: overallVerdict_def dominantVerdict_def fold_dominant)

lemma mergeChunkReviews_verdict:
  assumes "2 \<le> length rs"
  shows "\<exists>r. mergeChunkReviews rs a = Inr r
             \<and> verdict (review_summary r) = overallVerdict (map (\<lambda>r. verdict (review_summary r)) rs)"
proof -
  from assms obtain r0 r1 rest where "rs = r0 # r1 # rest"
    by (cases rs; cases "tl rs") auto
  then show ?thesis
    by (simp add: mergeChunkReviews_def)
qed

lemma overallVerdict_set: "set vs = set ws \<Longrightarrow> overallVerdict vs = overallVerdict ws"
  by (simp add: overallVerdict_def)

text \<open>
  Claim C5. For two or more reviews \<^verbatim>\<open>mergeChunkReviews\<close> returns a review whose verdict is
  the dominant verdict of the list under \<^verbatim>\<open>request-changes > comment > approve\<close>. The
  verdict is the same for every permutation of the list, and it is
  \<^verbatim>\<open>request-changes\<close> when the verdicts are comment, approve and request-changes in any
  order.
\<close>

theorem mergeChunkReviews_verdict_dominance:
  assumes "2 \<le> length rs"
  shows "\<exists>r. mergeChunkReviews rs a = Inr r
           \<and> verdict (review_summary r) = dominantVerdict (map (\<lambda>r. verdict (review_summary r)) rs)
           \<and> (\<forall>rs' a'. mset rs' = mset rs \<longrightarrow>
                (\<exists>r'. mergeChunkReviews rs' a' = Inr r'
                      \<and> verdict (review_summary r') = verdict (review_summary r)))
           \<and> (mset (map (\<lambda>r. verdict (review_summary r)) rs) = {#Comment, Approve, RequestChanges#}
                \<longrightarrow> verdict (review_summary r) = RequestChanges)"
proof -
  let ?v = "\<lambda>r. verdict (review_summary r)"
  from mergeChunkReviews_verdict[OF assms, of a] obtain r where
    r: "mergeChunkReviews rs a = Inr r" "?v r = overallVerdict (map ?v rs)"
    by blast
  have perm: "\<exists>r'. mergeChunkReviews rs' a' = Inr r' \<and> ?v r' = ?v r" if "mset rs' = mset rs" for rs' a'
  proof -
    from that have len: "2 \<le> length rs'" using assms by (metis size_mset)
    from that have "set rs' = set rs" by (metis set_mset_mset)
    then have "overallVerdict (map ?v rs') = overallVerdict (map ?v rs)"
      by (intro overallVerdict_set) simp
    with mergeChunkReviews_verdict[OF len, of a'] r(2) show ?thesis by auto
  qed
  have three: "?v r = RequestChanges"
    if "mset (map ?v rs) = {#Comment, Approve, RequestChanges#}"
  proof -
    from that have "set (map ?v rs) = {Comment, Approve, RequestChanges}"
      by (metis set_mset_mset set_mset_add_mset_insert set_mset_empty)
    then show ?thesis using r(2) by (simp add: overallVerdict_def)
  qed
  show ?thesis
    using r perm three by (auto simp: overallVerdict_dominant)
qed

theorem mergeChunkReviews_verdict_dominance_witness:
  "2 \<le> length [reviewWithVerdict Comment, reviewWithVerdict Approve, reviewWithVerdict RequestChanges]
   \<and> (\<exists>r. mergeChunkReviews [reviewWithVerdict Comment, reviewWithVerdict Approve, reviewWithVerdict RequestChanges]
             (planFor length smallWindow (requestFor fiveChanges)) = Inr r
          \<and> verdict (review_summary r) = RequestChanges)"
proof -
  let ?rs = "[reviewWithVerdict Comment, reviewWithVerdict Approve, reviewWithVerdict RequestChanges]"
  let ?a = "planFor length smallWindow (requestFor fiveChanges)"
  have h: "2 \<le> length ?rs" by simp
  have v: "mset (map (\<lambda>r. verdict (review_summary r)) ?rs) = {#Comment, Approve, RequestChanges#}"
    by (simp add: reviewWithVerdict_def)
  from mergeChunkReviews_verdict_dominance[OF h, of ?a] show ?thesis
  proof (elim exE conjE)
    fix r
    assume "mergeChunkReviews ?rs ?a = Inr r"
      and "mset (map (\<lambda>r. verdict (review_summary r)) ?rs) = {#Comment, Approve, RequestChanges#}
             \<longrightarrow> verdict (review_summary r) = RequestChanges"
    with v h show ?thesis by blast
  qed
qed

section \<open>The chunk loop\<close>





text \<open>
  What the loop does keep: with a positive limit, a call begins only while the
  accumulated cost is at most the limit.
\<close>

lemma chunkLoop_dispatch_bound:
  assumes "cap = Some l" and "l \<noteq> 0" and "totalCost st \<le> l"
    and "\<forall>(j, c)\<in>set (dispatches st). c \<le> l"
  shows "\<forall>(j, c)\<in>set (dispatches (chunkLoop gen cap req n i cks st)). c \<le> l"
  using assms(3,4)
proof (induction cks arbitrary: i st)
  case Nil
  then show ?case by simp
next
  case (Cons c rest)
  let ?st1 = "st\<lparr>dispatches := dispatches st @ [(i, totalCost st)]\<rparr>"
  have d1: "\<forall>(j, c)\<in>set (dispatches ?st1). c \<le> l"
    using Cons.prems by auto
  show ?case
  proof (cases "gen (chunkRequest req n i c)")
    case (Inl e)
    then show ?thesis
      using Cons.IH[of ?st1 "i + 1"] d1 Cons.prems(1) by simp
  next
    case (Inr r)
    let ?st2 = "?st1\<lparr>reviews := reviews ?st1 @ [r],
                       totalCost := totalCost ?st1 + estimatedCost (usage r)\<rparr>"
    show ?thesis
    proof (cases "overCostLimit cap (totalCost ?st2)")
      case True
      with Inr d1 show ?thesis by (simp add: Let_def)
    next
      case False
      then have "totalCost ?st2 \<le> l"
        using assms(1,2) by (simp add: overCostLimit_def)
      moreover have "\<forall>(j, c)\<in>set (dispatches ?st2). c \<le> l"
        using d1 by simp
      ultimately have "\<forall>(j, c)\<in>set (dispatches (chunkLoop gen cap req n (i + 1) rest ?st2)). c \<le> l"
        by (rule Cons.IH)
      with Inr False show ?thesis by (simp add: Let_def)
    qed
  qed
qed

text \<open>
  Claim C3 at a concrete run. The plan has three chunks, every review costs 1 and the
  limit is 1. After the first review the accumulated cost equals the limit; the test
  \<^verbatim>\<open>totalCost > this.config.costLimit\<close> is false there, so the second chunk is
  dispatched with an accumulated cost of 1, and the loop stops only after it.
\<close>

theorem chunkLoop_dispatch_at_ceiling:
  "dispatches (runLoop length smallWindow (Some 1) (priceList [1, 1, 1]) (requestFor fiveChanges))
     = [(0, 0), (1, 1)]
   \<and> length (chunks (planFor length smallWindow (requestFor fiveChanges))) = 3"
  by code_simp






section \<open>Priority of changes\<close>

lemma getOrEmpty_pushFinding:
  "getOrEmpty (pushFinding f m) k = getOrEmpty m k @ (if finding_file f = k then [f] else [])"
  by (simp add: pushFinding_def getOrEmpty_def)

lemma fold_pushFinding_get:
  "getOrEmpty (fold pushFinding fs m) k = getOrEmpty m k @ filter (\<lambda>f. finding_file f = k) fs"
  by (induction fs arbitrary: m) (simp_all add: getOrEmpty_pushFinding)

lemma findingsByFile_get:
  "getOrEmpty (findingsByFile fs) k = filter (\<lambda>f. finding_file f = k) fs"
  by (simp add: findingsByFile_def fold_pushFinding_get) (simp add: getOrEmpty_def)

lemma fold_low_priority:
  assumes "\<forall>f\<in>set fs. severity f = Low"
  shows "fold (\<lambda>finding p. max p (getFindingPriority finding)) fs p
         = (if fs = [] then p else max p LOW_ISSUE)"
  using assms
proof (induction fs arbitrary: p)
  case Nil
  then show ?case by simp
next
  case (Cons f fs)
  then show ?case
    by (simp add: getFindingPriority_def)
qed

lemma auth_js_sensitive: "isSecuritySensitiveFile ''auth.js''"
  by code_simp

lemma auth_js_not_critical: "\<not> isCriticalFile ''auth.js''"
  by code_simp

lemma utils_js_not_critical: "\<not> isCriticalFile ''utils.js''"
  by code_simp

lemma utils_js_not_sensitive: "\<not> isSecuritySensitiveFile ''utils.js''"
  by code_simp

text \<open>
  Claim C8, as the code has it. The boost for a security-sensitive file name is given to
  added files only. An added \<^verbatim>\<open>auth.js\<close> without findings gets priority 90, a change of
  any type to \<^verbatim>\<open>utils.js\<close> with only low-severity findings gets at most 40, and the added
  \<^verbatim>\<open>auth.js\<close> is placed first whatever the order of the input.
\<close>

theorem added_security_file_first:
  assumes "\<forall>f\<in>set fs. finding_file f = ''utils.js'' \<and> severity f = Low"
  shows "priority (prioritizeItem fs None \<lparr>change_file = ''auth.js'', changeType = Added, hunks = hs\<rparr>)
           = HIGH_SECURITY
       \<and> priority (prioritizeItem fs None \<lparr>change_file = ''utils.js'', changeType = t, hunks = hs\<rparr>)
           \<le> LOW_ISSUE
       \<and> map change (prioritizeContent
            [\<lparr>change_file = ''utils.js'', changeType = t, hunks = hs\<rparr>,
             \<lparr>change_file = ''auth.js'', changeType = Added, hunks = hs\<rparr>] fs None)
          = [\<lparr>change_file = ''auth.js'', changeType = Added, hunks = hs\<rparr>,
             \<lparr>change_file = ''utils.js'', changeType = t, hunks = hs\<rparr>]
       \<and> map change (prioritizeContent
            [\<lparr>change_file = ''auth.js'', changeType = Added, hunks = hs\<rparr>,
             \<lparr>change_file = ''utils.js'', changeType = t, hunks = hs\<rparr>] fs None)
          = [\<lparr>change_file = ''auth.js'', changeType = Added, hunks = hs\<rparr>,
             \<lparr>change_file = ''utils.js'', changeType = t, hunks = hs\<rparr>]"
proof -
  let ?auth = "\<lparr>change_file = ''auth.js'', changeType = Added, hunks = hs\<rparr>"
  let ?utils = "\<lparr>change_file = ''utils.js'', changeType = t, hunks = hs\<rparr>"
  have none: "getOrEmpty (findingsByFile fs) ''auth.js'' = []"
    using assms by (auto simp: findingsByFile_get filter_empty_conv)
  have all: "getOrEmpty (findingsByFile fs) ''utils.js'' = fs"
    using assms by (simp add: findingsByFile_get)
  have low: "\<forall>f\<in>set fs. severity f = Low" using assms by simp
  have pa: "priority (prioritizeItem fs None ?auth) = HIGH_SECURITY"
    using auth_js_sensitive auth_js_not_critical
    by (simp add: prioritizeItem_def Let_def none calculateChangePriority_def isForced_def
        ContentPriority_defs)
  have pu: "priority (prioritizeItem fs None ?utils) \<le> LOW_ISSUE"
    using utils_js_not_critical utils_js_not_sensitive
    by (simp add: prioritizeItem_def Let_def all calculateChangePriority_def isForced_def
        fold_low_priority[OF low] ContentPriority_defs)
  from pa pu have lt: "priority (prioritizeItem fs None ?utils) < priority (prioritizeItem fs None ?auth)"
    by (simp add: ContentPriority_defs)
  have o1: "map change (prioritizeContent [?utils, ?auth] fs None) = [?auth, ?utils]"
    using lt
    by (simp add: prioritizeContent_def prioritizeContentWith_def jsSort_def
        change_prioritizeItem)
  have o2: "map change (prioritizeContent [?auth, ?utils] fs None) = [?auth, ?utils]"
    using lt
    by (simp add: prioritizeContent_def prioritizeContentWith_def jsSort_def
        change_prioritizeItem)
  from pa pu o1 o2 show ?thesis by blast
qed

theorem added_security_file_first_witness:
  "list_all (\<lambda>f. finding_file f = ''utils.js'' \<and> severity f = Low) [lowFinding ''utils.js'']
   \<and> map change (prioritizeContent [bareChange ''utils.js'' Modified, bareChange ''auth.js'' Added]
        [lowFinding ''utils.js''] None)
      = [bareChange ''auth.js'' Added, bareChange ''utils.js'' Modified]"
proof -
  have h: "\<forall>f\<in>set [lowFinding ''utils.js'']. finding_file f = ''utils.js'' \<and> severity f = Low"
    by (simp add: lowFinding_def)
  from added_security_file_first[OF h, of "[]" Modified] h show ?thesis
    by (simp add: bareChange_def)
qed

text \<open>
  A modified \<^verbatim>\<open>auth.js\<close> without findings keeps the base priority 20 and comes after a
  modified \<^verbatim>\<open>utils.js\<close> with one low-severity finding, which has priority 40.
\<close>

theorem security_file_first_counterexample:
  "calculateChangePriority (bareChange ''auth.js'' Modified) [] = 20
   \<and> calculateChangePriority (bareChange ''utils.js'' Modified) [lowFinding ''utils.js''] = 40
   \<and> map change (prioritizeContent [bareChange ''auth.js'' Modified, bareChange ''utils.js'' Modified]
        [lowFinding ''utils.js''] None)
      = [bareChange ''utils.js'' Modified, bareChange ''auth.js'' Modified]"
  by code_simp

section \<open>Force-included files\<close>

text \<open>
  Claim C2 at a concrete input. One change, to a file that is force-included, under the
  by-severity strategy: its priority 100 lies in the range 90 to 110 of the first group
  and in the range 80 to 100 of the second, and \<^verbatim>\<open>createSingleChunk\<close> always inserts a
  must-include item, so the change is in two chunks.
\<close>

theorem forced_change_in_two_severity_chunks:
  "map chunk_id
     (chunks (analyzeAndChunk length smallWindow [bareChange ''a.ts'' Modified] []
                (withStrategy (Some BY_SEVERITY) (Some [''a.ts'']))))
   = [''severity-critical-security'', ''severity-high-security'']
   \<and> map changes
     (chunks (analyzeAndChunk length smallWindow [bareChange ''a.ts'' Modified] []
                (withStrategy (Some BY_SEVERITY) (Some [''a.ts'']))))
   = [[bareChange ''a.ts'' Modified], [bareChange ''a.ts'' Modified]]"
  by code_simp

section \<open>Filling one chunk\<close>

lemma fold_hunk_tokens_ge:
  "a \<le> fold (\<lambda>hunk tokens.
             tokens + int (est (content hunk))
             + (case hunk_context hunk of
                  None \<Rightarrow> 0
                | Some (ctxBefore, ctxAfter) \<Rightarrow>
                    (if ctxBefore \<noteq> [] then int (est ctxBefore) else 0)
                    + (if ctxAfter \<noteq> [] then int (est ctxAfter) else 0))) hs a"
proof (induction hs arbitrary: a)
  case Nil
  then show ?case by simp
next
  case (Cons h hs)
  let ?a' = "a + int (est (content h))
             + (case hunk_context h of
                  None \<Rightarrow> 0
                | Some (ctxBefore, ctxAfter) \<Rightarrow>
                    (if ctxBefore \<noteq> [] then int (est ctxBefore) else 0)
                    + (if ctxAfter \<noteq> [] then int (est ctxAfter) else 0))"
  have "a \<le> ?a'" by (simp split: option.split prod.split)
  also have "?a' \<le> fold (\<lambda>hunk tokens.
             tokens + int (est (content hunk))
             + (case hunk_context hunk of
                  None \<Rightarrow> 0
                | Some (ctxBefore, ctxAfter) \<Rightarrow>
                    (if ctxBefore \<noteq> [] then int (est ctxBefore) else 0)
                    + (if ctxAfter \<noteq> [] then int (est ctxAfter) else 0))) hs ?a'"
    by (rule Cons.IH)
  finally show ?case by simp
qed

lemma estimateChangeTokens_ge: "50 \<le> estimateChangeTokens est c"
  unfolding estimateChangeTokens_def by (rule fold_hunk_tokens_ge)

lemma itemTokens_ge: "50 \<le> itemTokens est item"
  using estimateChangeTokens_ge[of est "change item"]
  by (simp add: itemTokens_def estimateFindingTokens_def)

lemma fit_fold_kept:
  "changes (fold (\<lambda>item chunk.
             if tokenEstimate chunk + itemTokens est item \<le> B \<or> mustInclude item
             then addItem est item chunk else chunk) xs ck)
     = changes ck @ map change (keptItems est B (tokenEstimate ck) xs)
   \<and> tokenEstimate (fold (\<lambda>item chunk.
             if tokenEstimate chunk + itemTokens est item \<le> B \<or> mustInclude item
             then addItem est item chunk else chunk) xs ck)
     = tokenEstimate ck + sum_list (map (itemTokens est) (keptItems est B (tokenEstimate ck) xs))"
proof (induction xs arbitrary: ck)
  case Nil
  then show ?case by simp
next
  case (Cons x xs)
  show ?case
  proof (cases "tokenEstimate ck + itemTokens est x \<le> B \<or> mustInclude x")
    case True
    then show ?thesis
      using Cons.IH[of "addItem est x ck"] by (simp add: addItem_def)
  next
    case False
    then show ?thesis
      using Cons.IH[of ck] by simp
  qed
qed

lemma keptItems_must:
  "i \<in> set xs \<Longrightarrow> mustInclude i \<Longrightarrow> i \<in> set (keptItems est B u xs)"
  by (induction xs arbitrary: u) auto

lemma keptItems_all:
  "u + sum_list (map (itemTokens est) xs) \<le> B \<Longrightarrow> keptItems est B u xs = xs"
proof (induction xs arbitrary: u)
  case Nil
  then show ?case by simp
next
  case (Cons x xs)
  have "0 \<le> itemTokens est i" for i
    using itemTokens_ge[of est i] by simp
  then have "0 \<le> sum_list (map (itemTokens est) xs)"
    by (intro sum_list_nonneg) auto
  with Cons.prems have fits: "u + itemTokens est x \<le> B" by simp
  from Cons.prems have "(u + itemTokens est x) + sum_list (map (itemTokens est) xs) \<le> B"
    by simp
  from Cons.IH[OF this] fits show ?case by simp
qed

text \<open>
  What \<^verbatim>\<open>createSingleChunk\<close> does with a group: it goes through the must-include items
  and then through the other items in their order, keeps an item that fits next to what
  is kept already, keeps every must-include item, and skips any other item. It returns
  one chunk and starts no second one.
\<close>

lemma createSingleChunk_first_fit:
  "changes (createSingleChunk est items B cid d)
     = map change (keptItems est B 0 (fillOrder items))
   \<and> tokenEstimate (createSingleChunk est items B cid d)
     = sum_list (map (itemTokens est) (keptItems est B 0 (fillOrder items)))
   \<and> (\<forall>i\<in>set items. mustInclude i \<longrightarrow> i \<in> set (keptItems est B 0 (fillOrder items)))
   \<and> (sum_list (map (itemTokens est) (fillOrder items)) \<le> B
        \<longrightarrow> keptItems est B 0 (fillOrder items) = fillOrder items)
   \<and> (sorted (map (\<lambda>i. - priority i) items)
        \<longrightarrow> sorted (map (\<lambda>i. - priority i) (filter (\<lambda>c. \<not> mustInclude c) items)))"
proof -
  have a: "changes (createSingleChunk est items B cid d)
             = map change (keptItems est B 0 (fillOrder items))
           \<and> tokenEstimate (createSingleChunk est items B cid d)
             = sum_list (map (itemTokens est) (keptItems est B 0 (fillOrder items)))"
    using fit_fold_kept[of est B "fillOrder items" "emptyChunk cid d"]
    by (simp add: createSingleChunk_def fillOrder_def emptyChunk_def)
  have b: "\<forall>i\<in>set items. mustInclude i \<longrightarrow> i \<in> set (keptItems est B 0 (fillOrder items))"
    by (auto intro!: keptItems_must simp: fillOrder_def)
  have c: "sum_list (map (itemTokens est) (fillOrder items)) \<le> B
        \<longrightarrow> keptItems est B 0 (fillOrder items) = fillOrder items"
    using keptItems_all[of 0 est "fillOrder items" B] by simp
  have e: "sorted (map (\<lambda>i. - priority i) items)
        \<longrightarrow> sorted (map (\<lambda>i. - priority i) (filter (\<lambda>c. \<not> mustInclude c) items))"
    by (simp add: sorted_filter)
  from a b c e show ?thesis by blast
qed

text \<open>
  Claim C6 at a concrete input. Three changes of one module, none force-included, 50
  tokens each, with 100 tokens available. Under the module strategy the third change
  does not fit next to the first two; \<^verbatim>\<open>createSingleChunk\<close> skips it and no chunk is
  started for it, so the plan is one chunk and the change is in no chunk, while the
  summary of the plan still counts three changes. On the same input \<^verbatim>\<open>chunkBySize\<close>
  closes the chunk and starts a new one that receives the change.
\<close>

theorem grouping_drops_unfitting_item:
  "map (map change_file \<circ> changes)
     (chunks (analyzeAndChunk length smallWindow
        [bareChange ''src/a.ts'' Modified, bareChange ''src/b.ts'' Modified,
         bareChange ''src/c.ts'' Modified] [] (withStrategy (Some BY_MODULE) None)))
   = [[''src/a.ts'', ''src/b.ts'']]
   \<and> totalChanges (summary (analyzeAndChunk length smallWindow
        [bareChange ''src/a.ts'' Modified, bareChange ''src/b.ts'' Modified,
         bareChange ''src/c.ts'' Modified] [] (withStrategy (Some BY_MODULE) None))) = 3
   \<and> map (map change_file \<circ> changes)
     (chunks (analyzeAndChunk length smallWindow
        [bareChange ''src/a.ts'' Modified, bareChange ''src/b.ts'' Modified,
         bareChange ''src/c.ts'' Modified] [] (withStrategy (Some BY_SIZE) None)))
   = [[''src/a.ts'', ''src/b.ts''], [''src/c.ts'']]"
  by code_simp

section \<open>The sort of the engine\<close>

text \<open>
  A sort that meets the contract of the language, descending by key with equal keys in
  their input order, returns what \<open>jsSort\<close> returns, so the planner with \<open>jsSort\<close> is
  the planner on every such engine.
\<close>

lemma stableSortDesc_unique:
  assumes "stableSortDesc key srt"
  shows "srt xs = jsSort key xs"
proof -
  from assms have m: "mset (srt xs) = mset xs"
    and s: "sorted (map (\<lambda>x. - key x) (srt xs))"
    and f: "\<And>k. filter (\<lambda>x. key x = k) (srt xs) = filter (\<lambda>x. key x = k) xs"
    by (simp_all add: stableSortDesc_def)
  have "sort_key (\<lambda>x. - key x) xs = srt xs"
  proof (rule properties_for_sort_key)
    show "mset (srt xs) = mset xs" by (rule m)
    show "sorted (map (\<lambda>x. - key x) (srt xs))" by (rule s)
    show "filter (\<lambda>x. - key k = - key x) (srt xs) = filter (\<lambda>x. - key k = - key x) xs" for k
      using f[of "key k"] by (simp add: eq_commute)
  qed
  then show ?thesis by (simp add: jsSort_def)
qed

lemma stableSortDesc_jsSort: "stableSortDesc key (jsSort key)"
proof -
  have "filter (\<lambda>x. key x = k) (sort_key (\<lambda>x. - key x) xs) = filter (\<lambda>x. key x = k) xs" for k xs
    using sort_key_stable[of "\<lambda>x. - key x" "- k" xs] by simp
  then show ?thesis
    by (simp add: stableSortDesc_def jsSort_def)
qed

lemma analyzeAndChunkWith_conforming_sort:
  assumes "stableSortDesc priority sortItems"
    and "stableSortDesc (\<lambda>entry. maxPriority (snd entry)) sortModules"
  shows "analyzeAndChunkWith sortItems sortModules est config cs fs opts
         = analyzeAndChunk est config cs fs opts"
proof -
  have "sortItems = jsSort priority"
    using stableSortDesc_unique[OF assms(1)] by (intro ext) simp
  moreover have "sortModules = jsSort (\<lambda>entry. maxPriority (snd entry))"
    using stableSortDesc_unique[OF assms(2)] by (intro ext) simp
  ultimately show ?thesis by (simp add: analyzeAndChunk_def)
qed

section \<open>Grouping strategies make one chunk of each group\<close>

lemma groupPush_filter:
  fixes m :: "(string \<times> 'a list) list"
  assumes "distinct (map fst m)"
    and "\<forall>(k, g)\<in>set m. g = filter (\<lambda>i. key i = k) xs"
    and "fst ` set m = key ` set xs"
  shows "distinct (map fst (groupPush (key x) x m))
         \<and> (\<forall>(k, g)\<in>set (groupPush (key x) x m). g = filter (\<lambda>i. key i = k) (xs @ [x]))
         \<and> fst ` set (groupPush (key x) x m) = key ` set (xs @ [x])"
proof (cases "key x \<in> fst ` set m")
  case True
  let ?m' = "map (\<lambda>(k', g). if k' = key x then (k', g @ [x]) else (k', g)) m"
  have eq: "groupPush (key x) x m = ?m'"
    using True by (simp add: groupPush_def)
  have m1: "map fst ?m' = map fst m"
    by (induction m) auto
  have d: "distinct (map fst ?m')"
    using assms(1) by (simp only: m1)
  have g: "\<forall>(k, g)\<in>set ?m'. g = filter (\<lambda>i. key i = k) (xs @ [x])"
    using assms(2) by (fastforce split: if_splits)
  have "fst ` set ?m' = fst ` set m"
    using m1 by (metis list.set_map)
  also have "\<dots> = key ` set (xs @ [x])"
    using True assms(3) by auto
  finally have k: "fst ` set ?m' = key ` set (xs @ [x])" .
  from d g k show ?thesis
    by (simp only: eq)
next
  case False
  have eq: "groupPush (key x) x m = m @ [(key x, [x])]"
    using False by (simp add: groupPush_def)
  from False assms(3) have fresh: "\<forall>i\<in>set xs. key i \<noteq> key x"
    by (metis image_eqI)
  then have new: "filter (\<lambda>i. key i = key x) (xs @ [x]) = [x]"
    by (simp add: filter_empty_conv)
  have old: "\<forall>(k, g)\<in>set m. g = filter (\<lambda>i. key i = k) (xs @ [x])"
    using assms(2) False by force
  have d: "distinct (map fst (m @ [(key x, [x])]))"
    using assms(1) False by simp
  have g: "\<forall>(k, g)\<in>set (m @ [(key x, [x])]). g = filter (\<lambda>i. key i = k) (xs @ [x])"
    using old new by auto
  have k: "fst ` set (m @ [(key x, [x])]) = key ` set (xs @ [x])"
    using assms(3) by auto
  from d g k show ?thesis
    by (simp only: eq)
qed

lemma fold_groupPush_filter:
  "distinct (map fst (fold (\<lambda>item m. groupPush (key item) item m) xs []))
   \<and> (\<forall>(k, g)\<in>set (fold (\<lambda>item m. groupPush (key item) item m) xs []).
         g = filter (\<lambda>i. key i = k) xs)
   \<and> fst ` set (fold (\<lambda>item m. groupPush (key item) item m) xs []) = key ` set xs"
proof (induction xs rule: rev_induct)
  case Nil
  then show ?case by simp
next
  case (snoc x xs)
  from groupPush_filter[of "fold (\<lambda>item m. groupPush (key item) item m) xs []" key xs x] snoc
  show ?case by simp
qed

lemma groups_single_chunk:
  fixes groups :: "(string \<times> PrioritizedItem list) list"
  assumes "\<forall>(k, g)\<in>set groups. \<exists>P. g = filter P items"
  shows "\<forall>c\<in>set (fold (\<lambda>(k, g) cks. pushNonEmpty (createSingleChunk est g B (idf k) (df k)) cks)
                      groups []).
           \<exists>P cid d. c = createSingleChunk est (filter P items) B cid d"
proof (rule fold_chunks_pres)
  show "\<forall>c\<in>set []. \<exists>P cid d. c = createSingleChunk est (filter P items) B cid d" by simp
next
  fix x :: "string \<times> PrioritizedItem list" and cks :: "Chunk list"
  assume xin: "x \<in> set groups"
    and pres: "\<forall>c\<in>set cks. \<exists>P cid d. c = createSingleChunk est (filter P items) B cid d"
  obtain k g where x: "x = (k, g)" by (cases x) auto
  from assms xin x obtain P where "g = filter P items" by auto
  then have "\<exists>P cid d. createSingleChunk est g B (idf k) (df k)
                        = createSingleChunk est (filter P items) B cid d"
    by blast
  with pres show "\<forall>c\<in>set ((case x of (k, g) \<Rightarrow> \<lambda>cks.
                       pushNonEmpty (createSingleChunk est g B (idf k) (df k)) cks) cks).
           \<exists>P cid d. c = createSingleChunk est (filter P items) B cid d"
    by (simp add: x pushNonEmpty_def)
qed

lemma chunkBySeverity_single_chunk:
  "\<forall>c\<in>set (chunkBySeverity est items B).
     \<exists>P cid d. c = createSingleChunk est (filter P items) B cid d"
  unfolding chunkBySeverity_def
proof (rule fold_chunks_pres)
  show "\<forall>c\<in>set []. \<exists>P cid d. c = createSingleChunk est (filter P items) B cid d" by simp
next
  fix x :: "int \<times> int \<times> string \<times> string" and cks :: "Chunk list"
  assume pres: "\<forall>c\<in>set cks. \<exists>P cid d. c = createSingleChunk est (filter P items) B cid d"
  obtain gmin gmax name cid where x: "x = (gmin, gmax, name, cid)"
    by (cases x) auto
  have "\<exists>P cid' d. createSingleChunk est
            (filter (\<lambda>c. priority c \<ge> gmin \<and> priority c \<le> gmax) items) B cid name
          = createSingleChunk est (filter P items) B cid' d"
    by blast
  with pres show "\<forall>c\<in>set ((case x of (gmin, gmax, name, cid) \<Rightarrow> \<lambda>cks.
             let groupContent = filter (\<lambda>c. priority c \<ge> gmin \<and> priority c \<le> gmax) items
             in if groupContent = [] then cks
                else pushNonEmpty (createSingleChunk est groupContent B cid name) cks) cks).
           \<exists>P cid d. c = createSingleChunk est (filter P items) B cid d"
    by (simp add: x Let_def pushNonEmpty_def)
qed

lemma chunkByModule_single_chunk:
  "\<forall>c\<in>set (chunkByModuleWith (jsSort key) est items B).
     \<exists>P cid d. c = createSingleChunk est (filter P items) B cid d"
  unfolding chunkByModuleWith_def Let_def
proof (rule groups_single_chunk[where idf = "\<lambda>m. ''module-'' @ m" and df = "\<lambda>m. ''Module: '' @ m"])
  show "\<forall>(k, g)\<in>set (jsSort key
           (fold (\<lambda>item. groupPush (moduleOf (change_file (change item))) item) items [])).
         \<exists>P. g = filter P items"
    using fold_groupPush_filter[of "\<lambda>item. moduleOf (change_file (change item))" items]
    by (auto simp: set_jsSort)
qed

lemma chunkByFileType_single_chunk:
  "\<forall>c\<in>set (chunkByFileType est items B).
     \<exists>P cid d. c = createSingleChunk est (filter P items) B cid d"
  unfolding chunkByFileType_def Let_def
proof (rule groups_single_chunk[where idf = "\<lambda>m. ''type-'' @ m" and df = "\<lambda>m. ''File Type: '' @ m"])
  show "\<forall>(k, g)\<in>set (fold (\<lambda>item. groupPush (extensionOf (change_file (change item))) item) items []).
         \<exists>P. g = filter P items"
    using fold_groupPush_filter[of "\<lambda>item. extensionOf (change_file (change item))" items]
    by auto
qed

lemma smartChunk_single_chunk:
  "\<forall>c\<in>set (smartChunkWith (jsSort key) est items B).
     \<exists>P cid d. c = createSingleChunk est (filter P items) B cid d"
proof -
  let ?rest = "filter (\<lambda>c. \<not> mustInclude c \<and> priority c < CRITICAL_BUG) items"
  have "\<exists>P cid d. c = createSingleChunk est (filter P items) B cid d"
    if "c \<in> set (chunkByModuleWith (jsSort key) est ?rest B)" for c
  proof -
    from chunkByModule_single_chunk[of key est ?rest B] that
    obtain P cid d where "c = createSingleChunk est (filter P ?rest) B cid d" by blast
    then have "c = createSingleChunk est
                 (filter (\<lambda>x. (\<not> mustInclude x \<and> priority x < CRITICAL_BUG) \<and> P x) items) B cid d"
      by simp
    then show ?thesis by blast
  qed
  then show ?thesis
    by (auto simp: smartChunkWith_def Let_def pushNonEmpty_def)
qed

text \<open>
  Under every strategy but the size-based one, each chunk of the plan is the single chunk
  that \<^verbatim>\<open>createSingleChunk\<close> makes of one group, and a group is a selection of the
  prioritized items in their order.
\<close>

lemma grouping_chunk_is_single_chunk:
  assumes "strategyOf opts cs fs \<noteq> BY_SIZE"
    and "ck \<in> set (chunks (analyzeAndChunk est config cs fs opts))"
  shows "\<exists>P cid d. ck = createSingleChunk est
           (filter P (prioritizeContent cs fs (forceIncludeFiles opts)))
           (availableTokensOf config (systemPromptTokensOf opts)) cid d"
proof -
  let ?items = "prioritizeContent cs fs (forceIncludeFiles opts)"
  let ?sm = "jsSort (\<lambda>entry. maxPriority (snd entry))"
  have ck: "ck \<in> set (createChunksWith ?sm est config ?items (strategyOf opts cs fs)
                         (systemPromptTokensOf opts))"
    using assms(2)
    by (simp add: analyzeAndChunk_def analyzeAndChunkWith_def prioritizeContent_def Let_def)
  show ?thesis
  proof (cases "strategyOf opts cs fs")
    case BY_MODULE
    with ck chunkByModule_single_chunk[of _ est ?items] show ?thesis
      by (auto simp: createChunksWith_def Let_def)
  next
    case BY_SEVERITY
    with ck chunkBySeverity_single_chunk[of est ?items] show ?thesis
      by (auto simp: createChunksWith_def Let_def)
  next
    case BY_FILE_TYPE
    with ck chunkByFileType_single_chunk[of est ?items] show ?thesis
      by (auto simp: createChunksWith_def Let_def)
  next
    case BY_SIZE
    with assms(1) show ?thesis by simp
  next
    case SMART
    with ck smartChunk_single_chunk[of _ est ?items] show ?thesis
      by (auto simp: createChunksWith_def Let_def)
  qed
qed

end
